theory Spec2Isabelle
  imports Complex_Main "HOL-Library.Word"
begin

section \<open>The token hook \<open>useToken\<close> (src/hook/useToken.ts)\<close>

text \<open>
  The hook is a React function component hook. Its state cells (\<open>useState\<close>), the
  values it reads from the ambient containers, the reads that are in flight (the code after
  an \<open>await\<close>) and the calls it hands to its collaborators are made explicit here:
  every function of the source takes the state and returns the new one.
\<close>

subsection \<open>Values read from the containers\<close>

text \<open>
  \<open>Connection.useContainer()\<close> gives \<open>multicallProvider\<close>, \<open>account\<close> and
  \<open>signer\<close>, \<open>Contract.useContainer()\<close> gives \<open>erc20\<close>; \<open>address\<close> and
  \<open>decimals\<close> are the hook's arguments. Objects are known by their identity (a number),
  and may be absent (\<open>None\<close> for \<open>null\<close>/\<open>undefined\<close>).
\<close>

record env =
  erc20 :: "nat option"
  multicallProvider :: "nat option"
  signer :: "nat option"
  account :: "string option"
  address :: string
  decimals :: nat

text \<open>A contract binding: the result of \<open>erc20.attach(address)\<close>.\<close>

type_synonym binding = "nat \<times> string"

text \<open>JavaScript truthiness of a string and of a possibly absent string.\<close>

definition truthy :: "string \<Rightarrow> bool" where
  "truthy s = (s \<noteq> [])"

definition truthy_opt :: "string option \<Rightarrow> bool" where
  "truthy_opt a = (case a of None \<Rightarrow> False | Some s \<Rightarrow> truthy s)"

text \<open>\<open>useMemo(() => erc20?.attach(address) || null, [erc20, address])\<close>\<close>

definition contract :: "env \<Rightarrow> binding option" where
  "contract e = (case erc20 e of None \<Rightarrow> None | Some c \<Rightarrow> Some (c, address e))"

subsection \<open>Numbers\<close>

text \<open>
  Modelled from the spec: \<open>BIG_ZERO\<close> of \<open>../constant/number\<close> is not part of the
  source at hand; it is the decimal zero.
\<close>

definition BIG_ZERO :: rat where
  "BIG_ZERO = 0"

text \<open>
  Modelled from the spec: \<open>bigNum2Big\<close> of \<open>../util/format\<close> is not part of the
  source at hand. It is the Numeric Adapter's \<open>toDecimal(rawInteger, decimals)\<close>: the raw
  on-chain integer divided by \<open>10^decimals\<close>, exactly.
\<close>

definition bigNum2Big :: "int \<Rightarrow> nat \<Rightarrow> rat" where
  "bigNum2Big raw d = of_int raw / 10 ^ d"

text \<open>\<open>constants.MaxUint256\<close> of ethers: the hexadecimal literal of 64 digits \<open>f\<close>.\<close>

definition MaxUint256 :: int where
  "MaxUint256 = 0xffffffffffffffffffffffffffffffffffffffffffffffffffffffffffffffff"

subsection \<open>Calls to collaborators and reads in flight\<close>

datatype TransactionAction = APPROVE

datatype arg = AddressArg string | AmountArg int

datatype call =
    MulticallTotalSupply nat string
  | MulticallBalanceOf nat string string
  | ContractAllowance binding string string
  | ContractBalanceOf binding string
  | ExecuteWithGasLimit binding "nat option" string "arg list" TransactionAction string

text \<open>
  The rest of an async function after its \<open>await\<close>: which setter runs when the awaited
  promise resolves, with the values the closure captured.
\<close>

datatype continuation =
    SetTotalSupply nat
  | SetBalance nat
  | SetAllowance string nat
  | ReturnReceipt

datatype error = TypeError | ReadFailure

text \<open>What a call of an async function of the hook has done when it gives control back.\<close>

datatype outcome = Done | Awaiting nat | Raised error

record token_state =
  balance :: rat
  allowance :: "string \<rightharpoonup> rat"
  totalSupply :: rat
  pending :: "nat \<rightharpoonup> continuation"
  nextRequest :: nat
  calls :: "call list"

text \<open>\<open>useState(BIG_ZERO)\<close>, \<open>useState({})\<close>, \<open>useState(BIG_ZERO)\<close>; nothing in flight.\<close>

definition init_state :: token_state where
  "init_state = \<lparr> balance = BIG_ZERO, allowance = Map.empty, totalSupply = BIG_ZERO,
                  pending = Map.empty, nextRequest = 0, calls = [] \<rparr>"

text \<open>An \<open>await\<close> on a call: the call goes out, the continuation waits for its result.\<close>

definition await :: "call \<Rightarrow> continuation \<Rightarrow> token_state \<Rightarrow> outcome \<times> token_state" where
  "await c k s =
     (Awaiting (nextRequest s),
      s\<lparr> pending := (pending s)(nextRequest s \<mapsto> k),
         nextRequest := Suc (nextRequest s),
         calls := calls s @ [c] \<rparr>)"

text \<open>The code after the \<open>await\<close>, run with the resolved raw value.\<close>

fun resume :: "continuation \<Rightarrow> int \<Rightarrow> token_state \<Rightarrow> token_state" where
  "resume (SetTotalSupply d) v s = s\<lparr> totalSupply := bigNum2Big v d \<rparr>"
| "resume (SetBalance d) v s = s\<lparr> balance := bigNum2Big v d \<rparr>"
| "resume (SetAllowance spender d) v s =
     s\<lparr> allowance := (allowance s)(spender \<mapsto> bigNum2Big v d) \<rparr>"
| "resume ReturnReceipt v s = s"

text \<open>
  A promise in flight settles: resolved with a raw value (\<open>Inr\<close>) it runs the code after
  the \<open>await\<close>; rejected (\<open>Inl\<close>) the async function ends there, nothing after the
  \<open>await\<close> runs.
\<close>

definition settle :: "nat \<Rightarrow> error + int \<Rightarrow> token_state \<Rightarrow> token_state" where
  "settle r res s =
     (case pending s r of
        None \<Rightarrow> s
      | Some k \<Rightarrow>
          (case res of
             Inl e \<Rightarrow> s\<lparr> pending := (pending s)(r := None) \<rparr>
           | Inr v \<Rightarrow> resume k v (s\<lparr> pending := (pending s)(r := None) \<rparr>)))"

subsection \<open>The polling effects\<close>

definition fetchToken :: "env \<Rightarrow> token_state \<Rightarrow> outcome \<times> token_state" where
  "fetchToken e s =
     (case (erc20 e, multicallProvider e) of
        (Some c, Some m) \<Rightarrow>
          if truthy (address e)
          then await (MulticallTotalSupply m (address e)) (SetTotalSupply (decimals e)) s
          else (Done, s)
      | _ \<Rightarrow> (Done, s))"

definition fetchBalance :: "env \<Rightarrow> token_state \<Rightarrow> outcome \<times> token_state" where
  "fetchBalance e s =
     (case (erc20 e, multicallProvider e, account e) of
        (Some c, Some m, Some a) \<Rightarrow>
          if truthy (address e) \<and> truthy a
          then await (MulticallBalanceOf m (address e) a) (SetBalance (decimals e)) s
          else (Done, s)
      | _ \<Rightarrow> (Done, s))"

subsection \<open>The on-demand query and the actions\<close>

definition queryAllowanceBySpender :: "env \<Rightarrow> string \<Rightarrow> token_state \<Rightarrow> outcome \<times> token_state" where
  "queryAllowanceBySpender e spender s =
     (case (contract e, account e) of
        (Some c, Some a) \<Rightarrow>
          if truthy spender \<and> truthy a
          then await (ContractAllowance c a spender) (SetAllowance spender (decimals e)) s
          else (Done, s)
      | _ \<Rightarrow> (Done, s))"

text \<open>
  The callback handed to \<open>useContractCall\<close> for \<open>approve\<close>. \<open>contract!.connect(signer)\<close>
  is evaluated first: on a null \<open>contract\<close> the property access raises a \<open>TypeError\<close>
  before \<open>executeWithGasLimit\<close> is called. \<open>big2BigNum\<close> (\<open>../util/format\<close>, not part of
  the source at hand) is a parameter.
\<close>

definition approve ::
  "(rat \<Rightarrow> int) \<Rightarrow> env \<Rightarrow> string \<Rightarrow> rat \<Rightarrow> token_state \<Rightarrow> outcome \<times> token_state" where
  "approve big2BigNum e contractAddress amount s =
     (case contract e of
        None \<Rightarrow> (Raised TypeError, s)
      | Some c \<Rightarrow>
          await (ExecuteWithGasLimit c (signer e) ''approve''
                   [AddressArg contractAddress, AmountArg (big2BigNum amount)] APPROVE '''')
                ReturnReceipt s)"

definition approveInfinity :: "env \<Rightarrow> string \<Rightarrow> token_state \<Rightarrow> outcome \<times> token_state" where
  "approveInfinity e contractAddress s =
     (case contract e of
        None \<Rightarrow> (Raised TypeError, s)
      | Some c \<Rightarrow>
          await (ExecuteWithGasLimit c (signer e) ''approve''
                   [AddressArg contractAddress, AmountArg MaxUint256] APPROVE '''')
                ReturnReceipt s)"

text \<open>
  Modelled from the spec: \<open>useContractCall\<close> of \<open>./useContractCall\<close>, which turns
  the two callbacks above into the \<open>approve\<close> and \<open>approveInfinity\<close> the hook
  returns, is not part of the source at hand. The spec's Action Dispatcher wraps the
  mutating operations behind a uniform "execute and report outcome" contract: the outcome
  of an action is "either a transaction receipt or a failure reason", a failure "surfaces
  to the caller as the resolved outcome", and with an absent binding the operation must
  "never raise". So the wrapped action runs the callback and, where the callback raises,
  resolves with the failure reason instead of throwing; a call in flight stays in flight.
\<close>

datatype action = Resolved "error option" | Waiting nat

definition useContractCall ::
  "(token_state \<Rightarrow> outcome \<times> token_state) \<Rightarrow> token_state \<Rightarrow> action \<times> token_state" where
  "useContractCall callback s =
     (case callback s of
        (Done, s') \<Rightarrow> (Resolved None, s')
      | (Awaiting r, s') \<Rightarrow> (Waiting r, s')
      | (Raised err, s') \<Rightarrow> (Resolved (Some err), s'))"

subsection \<open>The event handlers\<close>

text \<open>
  \<open>from === account\<close> compares a string with a possibly absent string: it is false when
  no account is connected.
\<close>

definition transferHandler :: "env \<Rightarrow> string \<Rightarrow> string \<Rightarrow> token_state \<Rightarrow> outcome \<times> token_state" where
  "transferHandler e from to s =
     (case (contract e, account e) of
        (Some c, Some a) \<Rightarrow>
          if from = a \<or> to = a
          then await (ContractBalanceOf c a) (SetBalance (decimals e)) s
          else (Done, s)
      | _ \<Rightarrow> (Done, s))"

definition approvalHandler :: "env \<Rightarrow> string \<Rightarrow> string \<Rightarrow> token_state \<Rightarrow> outcome \<times> token_state" where
  "approvalHandler e owner spender s =
     (case (contract e, account e) of
        (Some c, Some a) \<Rightarrow>
          if owner = a
          then await (ContractAllowance c owner spender) (SetAllowance spender (decimals e)) s
          else (Done, s)
      | _ \<Rightarrow> (Done, s))"

section \<open>The subscriber \<open>useContractEvent\<close>\<close>

text \<open>
  \<open>useContractEvent(contract, eventName, callback)\<close> keeps a ref cell with the latest
  callback and one listener on the contract. A registration is what \<open>contract.on\<close> leaves
  on the emitter: the contract, the channel and the \<open>listener\<close> closure (known by a
  serial number: each run of the subscribing effect creates a new closure).
\<close>

type_synonym registration = "binding \<times> string \<times> nat"

record 'h subscriber =
  savedCallback :: "'h option"
  lastDeps :: "(binding option \<times> string) option"
  cleanup :: "registration option"
  listeners :: "registration list"
  nextListener :: nat

text \<open>Before the first commit: \<open>useRef()\<close> is empty, no effect has run.\<close>

definition mount :: "'h subscriber" where
  "mount = \<lparr> savedCallback = None, lastDeps = None, cleanup = None,
             listeners = [], nextListener = 0 \<rparr>"

text \<open>\<open>contract.on(eventName, listener)\<close> and \<open>contract.off(eventName, listener)\<close>.\<close>

definition on :: "registration \<Rightarrow> 'h subscriber \<Rightarrow> 'h subscriber" where
  "on r s = s\<lparr> listeners := listeners s @ [r] \<rparr>"

definition off :: "registration \<Rightarrow> 'h subscriber \<Rightarrow> 'h subscriber" where
  "off r s = s\<lparr> listeners := remove1 r (listeners s) \<rparr>"

text \<open>The function the subscribing effect returned, run by React before the effect runs
  again and at unmount.\<close>

definition runCleanup :: "'h subscriber \<Rightarrow> 'h subscriber" where
  "runCleanup s =
     (case cleanup s of None \<Rightarrow> s | Some r \<Rightarrow> (off r s)\<lparr> cleanup := None \<rparr>)"

text \<open>The first effect: \<open>savedCallback.current = callback\<close>, on every commit.\<close>

definition saveCallback :: "'h \<Rightarrow> 'h subscriber \<Rightarrow> 'h subscriber" where
  "saveCallback cb s = s\<lparr> savedCallback := Some cb \<rparr>"

text \<open>The second effect: a new \<open>listener\<close> closure, installed when \<open>contract && eventName\<close>.\<close>

definition subscribe :: "binding option \<Rightarrow> string \<Rightarrow> 'h subscriber \<Rightarrow> 'h subscriber" where
  "subscribe c eventName s =
     (let l = nextListener s;
          s' = s\<lparr> nextListener := Suc l, lastDeps := Some (c, eventName) \<rparr>
      in case c of
           None \<Rightarrow> s'
         | Some b \<Rightarrow>
             if truthy eventName
             then (on (b, eventName, l) s')\<lparr> cleanup := Some (b, eventName, l) \<rparr>
             else s')"

text \<open>
  One commit of the component with the arguments \<open>(contract, eventName, callback)\<close>, as the
  list of states it goes through: the cleanup of the subscribing effect (when its
  dependencies \<open>[contract, eventName]\<close> changed), the first effect, the second effect (when
  its dependencies changed).
\<close>

definition commit :: "binding option \<times> string \<times> 'h \<Rightarrow> 'h subscriber \<Rightarrow> 'h subscriber list" where
  "commit r s =
     (case r of (c, eventName, callback) \<Rightarrow>
        let changed = (lastDeps s \<noteq> Some (c, eventName));
            s1 = (if changed then runCleanup s else s);
            s2 = saveCallback callback s1;
            s3 = (if changed then subscribe c eventName s2 else s2)
        in [s1, s2, s3])"

definition useContractEvent :: "binding option \<times> string \<times> 'h \<Rightarrow> 'h subscriber \<Rightarrow> 'h subscriber" where
  "useContractEvent r s = last (commit r s)"

text \<open>The owning component goes away: React runs the cleanup.\<close>

definition unmount :: "'h subscriber \<Rightarrow> 'h subscriber" where
  "unmount s = runCleanup s"

text \<open>A sequence of commits: the state at the end, and every state on the way.\<close>

fun renders :: "(binding option \<times> string \<times> 'h) list \<Rightarrow> 'h subscriber \<Rightarrow> 'h subscriber" where
  "renders [] s = s"
| "renders (r # rs) s = renders rs (useContractEvent r s)"

fun instants :: "(binding option \<times> string \<times> 'h) list \<Rightarrow> 'h subscriber \<Rightarrow> 'h subscriber list" where
  "instants [] s = [s]"
| "instants (r # rs) s = s # commit r s @ instants rs (useContractEvent r s)"

text \<open>
  The contract emits on a channel: every listener registered for it runs,
  \<open>if (savedCallback.current) savedCallback.current(...args)\<close>. The result is the list of
  handlers that get called.
\<close>

definition invoked :: "binding \<Rightarrow> string \<Rightarrow> 'h subscriber \<Rightarrow> 'h list" where
  "invoked b eventName s =
     concat (map (\<lambda>r. if fst r = b \<and> fst (snd r) = eventName
                       then (case savedCallback s of None \<Rightarrow> [] | Some h \<Rightarrow> [h])
                       else [])
                 (listeners s))"

definition listenersOn :: "binding \<Rightarrow> string \<Rightarrow> 'h subscriber \<Rightarrow> registration list" where
  "listenersOn b eventName s =
     filter (\<lambda>r. fst r = b \<and> fst (snd r) = eventName) (listeners s)"

section \<open>The hook as a whole\<close>

text \<open>
  The state of one mounted \<open>useToken\<close>: the state cells and reads in flight, the
  dependencies the two polling effects last ran with, the two subscribers (their handlers
  are the closures of the commit that made them, known by the values they captured), and the
  values of the latest commit, which the returned callbacks close over.

  A commit stands for a render together with the effects React runs after it. The events
  are what can happen to the hook: a commit with new container values, a call of one of the
  returned callbacks, an event emitted by a contract, a read in flight that resolves or
  fails, and the unmount of the owning component (which runs the cleanups of the two
  subscribers).
\<close>

record hook =
  token :: token_state
  tokenDeps :: "(nat option \<times> nat option \<times> string \<times> nat) option"
  balanceDeps :: "(nat option \<times> nat option \<times> string \<times> string option \<times> nat) option"
  transferSub :: "env subscriber"
  approvalSub :: "env subscriber"
  latest :: "env option"

definition useToken_init :: hook where
  "useToken_init = \<lparr> token = init_state, tokenDeps = None, balanceDeps = None,
                     transferSub = mount, approvalSub = mount, latest = None \<rparr>"

datatype event =
    Render env
  | QueryAllowance string
  | Approve string rat
  | ApproveInfinity string
  | Transfer binding string string
  | Approval binding string string
  | Settle nat "error + int"
  | Unmount

text \<open>The handlers the subscriber calls run one after the other on the state.\<close>

fun runHandlers ::
  "(env \<Rightarrow> token_state \<Rightarrow> outcome \<times> token_state) \<Rightarrow> env list \<Rightarrow> token_state \<Rightarrow> token_state" where
  "runHandlers f [] s = s"
| "runHandlers f (e # es) s = runHandlers f es (snd (f e s))"

definition commitToken :: "env \<Rightarrow> hook \<Rightarrow> hook" where
  "commitToken e h =
     (let d1 = (erc20 e, multicallProvider e, address e, decimals e);
          d2 = (erc20 e, multicallProvider e, address e, account e, decimals e);
          t1 = (if tokenDeps h \<noteq> Some d1 then snd (fetchToken e (token h)) else token h);
          t2 = (if balanceDeps h \<noteq> Some d2 then snd (fetchBalance e t1) else t1)
      in h\<lparr> token := t2, tokenDeps := Some d1, balanceDeps := Some d2,
            transferSub := useContractEvent (contract e, ''Transfer'', e) (transferSub h),
            approvalSub := useContractEvent (contract e, ''Approval'', e) (approvalSub h),
            latest := Some e \<rparr>)"

fun step :: "(rat \<Rightarrow> int) \<Rightarrow> event \<Rightarrow> hook \<Rightarrow> hook" where
  "step cv (Render e) h = commitToken e h"
| "step cv (QueryAllowance spender) h =
     (case latest h of None \<Rightarrow> h
      | Some e \<Rightarrow> h\<lparr> token := snd (queryAllowanceBySpender e spender (token h)) \<rparr>)"
| "step cv (Approve spender amount) h =
     (case latest h of None \<Rightarrow> h
      | Some e \<Rightarrow> h\<lparr> token := snd (approve cv e spender amount (token h)) \<rparr>)"
| "step cv (ApproveInfinity spender) h =
     (case latest h of None \<Rightarrow> h
      | Some e \<Rightarrow> h\<lparr> token := snd (approveInfinity e spender (token h)) \<rparr>)"
| "step cv (Transfer b from to) h =
     h\<lparr> token := runHandlers (\<lambda>e. transferHandler e from to)
                    (invoked b ''Transfer'' (transferSub h)) (token h) \<rparr>"
| "step cv (Approval b owner spender) h =
     h\<lparr> token := runHandlers (\<lambda>e. approvalHandler e owner spender)
                    (invoked b ''Approval'' (approvalSub h)) (token h) \<rparr>"
| "step cv (Settle r res) h = h\<lparr> token := settle r res (token h) \<rparr>"
| "step cv Unmount h =
     h\<lparr> transferSub := unmount (transferSub h), approvalSub := unmount (approvalSub h) \<rparr>"

fun run :: "(rat \<Rightarrow> int) \<Rightarrow> event list \<Rightarrow> hook \<Rightarrow> hook" where
  "run cv [] h = h"
| "run cv (ev # evs) h = run cv evs (step cv ev h)"

text \<open>
  Whether an event is the successful completion of a read whose continuation writes the
  balance, the total supply or the allowance mapping.
\<close>

datatype feed = BalanceFeed | TotalSupplyFeed | AllowanceFeed

fun writes :: "continuation \<Rightarrow> feed option" where
  "writes (SetTotalSupply d) = Some TotalSupplyFeed"
| "writes (SetBalance d) = Some BalanceFeed"
| "writes (SetAllowance spender d) = Some AllowanceFeed"
| "writes ReturnReceipt = None"

fun resolves :: "feed \<Rightarrow> event \<Rightarrow> hook \<Rightarrow> bool" where
  "resolves f (Settle r (Inr v)) h =
     (case pending (token h) r of None \<Rightarrow> False | Some k \<Rightarrow> writes k = Some f)"
| "resolves f ev h = False"

text \<open>No read of the feed resolves during the events.\<close>

fun unresolved :: "(rat \<Rightarrow> int) \<Rightarrow> feed \<Rightarrow> event list \<Rightarrow> hook \<Rightarrow> bool" where
  "unresolved cv f [] h = True"
| "unresolved cv f (ev # evs) h = (\<not> resolves f ev h \<and> unresolved cv f evs (step cv ev h))"

section \<open>Auxiliary notions\<close>

text \<open>
  Two facts about a subscriber that every commit keeps: the listeners on the emitter are
  exactly what the pending cleanup function will remove, and after a commit the pending
  cleanup is the one the last dependencies ask for.
\<close>

definition tracked :: "'h subscriber \<Rightarrow> bool" where
  "tracked s = (listeners s = (case cleanup s of None \<Rightarrow> [] | Some r \<Rightarrow> [r]))"

definition settled :: "'h subscriber \<Rightarrow> bool" where
  "settled s =
     (case lastDeps s of
        None \<Rightarrow> cleanup s = None
      | Some (c, n) \<Rightarrow>
          (case c of
             None \<Rightarrow> cleanup s = None
           | Some b \<Rightarrow>
               if truthy n
               then (case cleanup s of None \<Rightarrow> False | Some r \<Rightarrow> fst r = b \<and> fst (snd r) = n)
               else cleanup s = None))"

text \<open>
  A pending cleanup belongs to the dependencies the subscribing effect last ran with; and
  what holds of the \<open>Approval\<close> subscriber in every state the hook reaches.
\<close>

definition linked :: "'h subscriber \<Rightarrow> bool" where
  "linked s =
     (case cleanup s of
        None \<Rightarrow> True
      | Some r \<Rightarrow> lastDeps s = Some (Some (fst r), fst (snd r)))"

definition approval_ok :: "hook \<Rightarrow> bool" where
  "approval_ok h =
     (tracked (approvalSub h) \<and> linked (approvalSub h) \<and>
      savedCallback (approvalSub h) = latest h \<and>
      (case latest h of
         None \<Rightarrow> True
       | Some e \<Rightarrow> lastDeps (approvalSub h) = Some (contract e, ''Approval'')))"

text \<open>Concrete container values, for evaluating the hook on examples.\<close>

definition connected :: env where
  "connected = \<lparr> erc20 = Some 1, multicallProvider = Some 2, signer = Some 3,
                 account = Some ''0xACC'', address = ''0xA'', decimals = 0 \<rparr>"

definition other_token :: env where
  "other_token = \<lparr> erc20 = Some 1, multicallProvider = Some 2, signer = Some 3,
                   account = Some ''0xACC'', address = ''0xB'', decimals = 0 \<rparr>"

definition disconnected :: env where
  "disconnected = \<lparr> erc20 = None, multicallProvider = None, signer = None,
                    account = None, address = ''0xA'', decimals = 18 \<rparr>"

section \<open>What the view state depends on\<close>

lemma await_view:
  "balance (snd (await c k s)) = balance s"
  "totalSupply (snd (await c k s)) = totalSupply s"
  "allowance (snd (await c k s)) = allowance s"
  by (simp_all add: await_def)

lemma fetchToken_view:
  "balance (snd (fetchToken e s)) = balance s"
  "totalSupply (snd (fetchToken e s)) = totalSupply s"
  "allowance (snd (fetchToken e s)) = allowance s"
  by (simp_all add: fetchToken_def await_view split: option.split)

lemma fetchBalance_view:
  "balance (snd (fetchBalance e s)) = balance s"
  "totalSupply (snd (fetchBalance e s)) = totalSupply s"
  "allowance (snd (fetchBalance e s)) = allowance s"
  by (simp_all add: fetchBalance_def await_view split: option.split)

lemma queryAllowanceBySpender_view:
  "balance (snd (queryAllowanceBySpender e sp s)) = balance s"
  "totalSupply (snd (queryAllowanceBySpender e sp s)) = totalSupply s"
  "allowance (snd (queryAllowanceBySpender e sp s)) = allowance s"
  by (simp_all add: queryAllowanceBySpender_def await_view split: option.split)

lemma approve_view:
  "balance (snd (approve cv e sp a s)) = balance s"
  "totalSupply (snd (approve cv e sp a s)) = totalSupply s"
  "allowance (snd (approve cv e sp a s)) = allowance s"
  by (simp_all add: approve_def await_view split: option.split)

lemma approveInfinity_view:
  "balance (snd (approveInfinity e sp s)) = balance s"
  "totalSupply (snd (approveInfinity e sp s)) = totalSupply s"
  "allowance (snd (approveInfinity e sp s)) = allowance s"
  by (simp_all add: approveInfinity_def await_view split: option.split)

lemma transferHandler_view:
  "balance (snd (transferHandler e f t s)) = balance s"
  "totalSupply (snd (transferHandler e f t s)) = totalSupply s"
  "allowance (snd (transferHandler e f t s)) = allowance s"
  by (simp_all add: transferHandler_def await_view split: option.split)

lemma approvalHandler_view:
  "balance (snd (approvalHandler e f t s)) = balance s"
  "totalSupply (snd (approvalHandler e f t s)) = totalSupply s"
  "allowance (snd (approvalHandler e f t s)) = allowance s"
  by (simp_all add: approvalHandler_def await_view split: option.split)

lemma runHandlers_view:
  assumes "\<And>e s. balance (snd (f e s)) = balance s"
          "\<And>e s. totalSupply (snd (f e s)) = totalSupply s"
          "\<And>e s. allowance (snd (f e s)) = allowance s"
  shows "balance (runHandlers f es s) = balance s"
        "totalSupply (runHandlers f es s) = totalSupply s"
        "allowance (runHandlers f es s) = allowance s"
  using assms by (induction es arbitrary: s) simp_all

lemma commitToken_view:
  "balance (token (commitToken e h)) = balance (token h)"
  "totalSupply (token (commitToken e h)) = totalSupply (token h)"
  "allowance (token (commitToken e h)) = allowance (token h)"
  by (simp_all add: commitToken_def Let_def fetchToken_view fetchBalance_view)

lemma resume_view:
  "writes k \<noteq> Some BalanceFeed \<Longrightarrow> balance (resume k v s) = balance s"
  "writes k \<noteq> Some TotalSupplyFeed \<Longrightarrow> totalSupply (resume k v s) = totalSupply s"
  "writes k \<noteq> Some AllowanceFeed \<Longrightarrow> allowance (resume k v s) = allowance s"
  by (cases k; simp)+

lemma settle_view:
  "\<not> resolves BalanceFeed (Settle r res) h \<Longrightarrow>
     balance (settle r res (token h)) = balance (token h)"
  "\<not> resolves TotalSupplyFeed (Settle r res) h \<Longrightarrow>
     totalSupply (settle r res (token h)) = totalSupply (token h)"
  "\<not> resolves AllowanceFeed (Settle r res) h \<Longrightarrow>
     allowance (settle r res (token h)) = allowance (token h)"
  by (cases res; cases "pending (token h) r"; simp add: settle_def resume_view)+

lemma step_view:
  "\<not> resolves BalanceFeed ev h \<Longrightarrow> balance (token (step cv ev h)) = balance (token h)"
  "\<not> resolves TotalSupplyFeed ev h \<Longrightarrow>
     totalSupply (token (step cv ev h)) = totalSupply (token h)"
  "\<not> resolves AllowanceFeed ev h \<Longrightarrow> allowance (token (step cv ev h)) = allowance (token h)"
  by (cases ev;
      simp add: commitToken_view queryAllowanceBySpender_view approve_view approveInfinity_view
        runHandlers_view transferHandler_view approvalHandler_view settle_view
        split: option.split)+

lemma run_view:
  "unresolved cv BalanceFeed evs h \<Longrightarrow> balance (token (run cv evs h)) = balance (token h)"
  "unresolved cv TotalSupplyFeed evs h \<Longrightarrow>
     totalSupply (token (run cv evs h)) = totalSupply (token h)"
  "unresolved cv AllowanceFeed evs h \<Longrightarrow>
     allowance (token (run cv evs h)) = allowance (token h)"
  by (induction evs arbitrary: h; simp add: step_view)+

section \<open>Read failures\<close>

text \<open>
  C9. When the read behind a feed fails, the stored value of that feed is left as it was:
  a rejected read writes nothing into balance, total supply or the allowance mapping, it
  only leaves the reads in flight. In particular a poll of the total supply or of the
  balance that fails leaves the total supply and the balance as they were before the poll.
\<close>

theorem failed_read_keeps_view_state:
  "balance (settle r (Inl err) s) = balance s \<and>
   totalSupply (settle r (Inl err) s) = totalSupply s \<and>
   allowance (settle r (Inl err) s) = allowance s \<and>
   pending (settle r (Inl err) s) r = None \<and>
   totalSupply (settle r (Inl err) (snd (fetchToken e s))) = totalSupply s \<and>
   balance (settle r (Inl err) (snd (fetchBalance e s))) = balance s \<and>
   balance (settle r (Inl err) (snd (transferHandler e from to s))) = balance s \<and>
   allowance (settle r (Inl err) (snd (queryAllowanceBySpender e spender s))) = allowance s"
proof -
  have a: "balance (settle r (Inl err) s) = balance s \<and>
           totalSupply (settle r (Inl err) s) = totalSupply s \<and>
           allowance (settle r (Inl err) s) = allowance s \<and>
           pending (settle r (Inl err) s) r = None" for s
    by (simp add: settle_def split: option.split)
  show ?thesis
    using a [of s] a [of "snd (fetchToken e s)"] a [of "snd (fetchBalance e s)"]
      a [of "snd (transferHandler e from to s)"] a [of "snd (queryAllowanceBySpender e spender s)"]
    by (simp add: fetchToken_view fetchBalance_view transferHandler_view
        queryAllowanceBySpender_view)
qed

section \<open>The initial snapshot\<close>

text \<open>
  C10. Right after \<open>useToken\<close> is initialised, \<open>balance\<close> and \<open>totalSupply\<close> are
  exactly zero and \<open>allowance\<close> is the empty mapping, and each of them stays so over any
  events of the hook (commits, queries, actions, contract events, failed reads, completions
  of other reads) until a read of its own feed resolves.
\<close>

theorem initial_snapshot:
  "balance (token useToken_init) = 0 \<and> totalSupply (token useToken_init) = 0 \<and>
   allowance (token useToken_init) = Map.empty \<and>
   (unresolved cv BalanceFeed evs useToken_init \<longrightarrow>
      balance (token (run cv evs useToken_init)) = 0) \<and>
   (unresolved cv TotalSupplyFeed evs useToken_init \<longrightarrow>
      totalSupply (token (run cv evs useToken_init)) = 0) \<and>
   (unresolved cv AllowanceFeed evs useToken_init \<longrightarrow>
      allowance (token (run cv evs useToken_init)) = Map.empty)"
  using run_view [of cv evs useToken_init]
  by (simp add: useToken_init_def init_state_def BIG_ZERO_def)

theorem initial_snapshot_witness:
  "unresolved floor BalanceFeed
     [Render connected, QueryAllowance ''0xS'', Settle 0 (Inl ReadFailure)] useToken_init \<and>
   unresolved floor TotalSupplyFeed
     [Render connected, QueryAllowance ''0xS'', Settle 0 (Inl ReadFailure)] useToken_init \<and>
   unresolved floor AllowanceFeed
     [Render connected, QueryAllowance ''0xS'', Settle 0 (Inl ReadFailure)] useToken_init \<and>
   balance (token (run floor
     [Render connected, QueryAllowance ''0xS'', Settle 0 (Inl ReadFailure)] useToken_init)) = 0 \<and>
   totalSupply (token (run floor
     [Render connected, QueryAllowance ''0xS'', Settle 0 (Inl ReadFailure)] useToken_init)) = 0 \<and>
   allowance (token (run floor
     [Render connected, QueryAllowance ''0xS'', Settle 0 (Inl ReadFailure)] useToken_init))
     = Map.empty"
proof -
  let ?evs = "[Render connected, QueryAllowance ''0xS'', Settle 0 (Inl ReadFailure)]"
  have u: "unresolved floor f ?evs useToken_init" for f
    by simp
  show ?thesis
    using initial_snapshot [of floor ?evs] u by blast
qed

section \<open>Overlapping reads of one feed\<close>

lemma fetchToken_live:
  assumes "erc20 e \<noteq> None" "multicallProvider e = Some m" "truthy (address e)"
  shows "fetchToken e s =
           await (MulticallTotalSupply m (address e)) (SetTotalSupply (decimals e)) s"
  using assms by (auto simp add: fetchToken_def)

lemma fetchBalance_live:
  assumes "erc20 e \<noteq> None" "multicallProvider e = Some m" "truthy (address e)"
    "account e = Some a" "truthy a"
  shows "fetchBalance e s =
           await (MulticallBalanceOf m (address e) a) (SetBalance (decimals e)) s"
  using assms by (auto simp add: fetchBalance_def)

lemma two_awaits_total:
  "totalSupply (settle (nextRequest s) (Inr vA) (settle (Suc (nextRequest s)) (Inr vB)
     (snd (await cB (SetTotalSupply dB) (snd (await cA (SetTotalSupply dA) s))))))
   = bigNum2Big vA dA"
  by (simp add: await_def settle_def)

lemma two_awaits_balance:
  "balance (settle (nextRequest s) (Inr vA) (settle (Suc (nextRequest s)) (Inr vB)
     (snd (await cB (SetBalance dB) (snd (await cA (SetBalance dA) s))))))
   = bigNum2Big vA dA"
  by (simp add: await_def settle_def)

text \<open>
  C1, as amended. The hook keeps no generation counter: the code after each \<open>await\<close>
  calls the setter unconditionally. When read A of a feed is issued before read B and
  completes after it, the stored value at the end is A's result, the result of the read
  that completed last.
\<close>

theorem last_completion_wins:
  assumes "erc20 eA \<noteq> None" "multicallProvider eA \<noteq> None" "truthy (address eA)"
      and "erc20 eB \<noteq> None" "multicallProvider eB \<noteq> None" "truthy (address eB)"
  shows "totalSupply (settle (nextRequest s) (Inr vA) (settle (Suc (nextRequest s)) (Inr vB)
            (snd (fetchToken eB (snd (fetchToken eA s)))))) = bigNum2Big vA (decimals eA) \<and>
         (truthy_opt (account eA) \<and> truthy_opt (account eB) \<longrightarrow>
          balance (settle (nextRequest s) (Inr vA) (settle (Suc (nextRequest s)) (Inr vB)
            (snd (fetchBalance eB (snd (fetchBalance eA s)))))) = bigNum2Big vA (decimals eA))"
proof -
  obtain mA mB where m: "multicallProvider eA = Some mA" "multicallProvider eB = Some mB"
    using assms(2,5) by auto
  have t: "totalSupply (settle (nextRequest s) (Inr vA) (settle (Suc (nextRequest s)) (Inr vB)
            (snd (fetchToken eB (snd (fetchToken eA s)))))) = bigNum2Big vA (decimals eA)"
    by (simp only: fetchToken_live [OF assms(1) m(1) assms(3)]
          fetchToken_live [OF assms(4) m(2) assms(6)] two_awaits_total)
  have b: "balance (settle (nextRequest s) (Inr vA) (settle (Suc (nextRequest s)) (Inr vB)
            (snd (fetchBalance eB (snd (fetchBalance eA s)))))) = bigNum2Big vA (decimals eA)"
    if h: "truthy_opt (account eA)" "truthy_opt (account eB)"
  proof -
    obtain aA aB where a: "account eA = Some aA" "truthy aA" "account eB = Some aB" "truthy aB"
      using h by (auto simp add: truthy_opt_def split: option.splits)
    show ?thesis
      by (simp only: fetchBalance_live [OF assms(1) m(1) assms(3) a(1,2)]
          fetchBalance_live [OF assms(4) m(2) assms(6) a(3,4)] two_awaits_balance)
  qed
  show ?thesis using t b by blast
qed

theorem last_completion_wins_witness:
  "erc20 connected \<noteq> None \<and> multicallProvider connected \<noteq> None \<and>
   truthy (address connected) \<and> erc20 other_token \<noteq> None \<and>
   multicallProvider other_token \<noteq> None \<and> truthy (address other_token) \<and>
   truthy_opt (account connected) \<and> truthy_opt (account other_token) \<and>
   totalSupply (settle (nextRequest init_state) (Inr 5)
     (settle (Suc (nextRequest init_state)) (Inr 7)
       (snd (fetchToken other_token (snd (fetchToken connected init_state)))))) = 5 \<and>
   balance (settle (nextRequest init_state) (Inr 5)
     (settle (Suc (nextRequest init_state)) (Inr 7)
       (snd (fetchBalance other_token (snd (fetchBalance connected init_state)))))) = 5"
proof -
  have h: "erc20 connected \<noteq> None" "multicallProvider connected \<noteq> None"
    "truthy (address connected)" "erc20 other_token \<noteq> None"
    "multicallProvider other_token \<noteq> None" "truthy (address other_token)"
    by (simp_all add: connected_def other_token_def truthy_def)
  have a: "truthy_opt (account connected)" "truthy_opt (account other_token)"
    by (simp_all add: connected_def other_token_def truthy_opt_def truthy_def)
  have d: "bigNum2Big 5 (decimals connected) = 5"
    by (simp add: bigNum2Big_def connected_def)
  show ?thesis
    using last_completion_wins [OF h, of init_state 5 7] h a d by simp
qed

theorem stale_read_overwrites:
  "totalSupply (token (run floor
      [Render connected, Render other_token, Settle 2 (Inr 7), Settle 0 (Inr 5)] useToken_init))
   = bigNum2Big 5 (decimals connected) \<and>
   bigNum2Big 5 (decimals connected) \<noteq> bigNum2Big 7 (decimals other_token)"
  by (simp add: commitToken_def Let_def fetchToken_def fetchBalance_def connected_def
      other_token_def init_state_def useToken_init_def await_def settle_def
      truthy_def bigNum2Big_def numeral_2_eq_2)

section \<open>No contract binding\<close>

text \<open>
  C2. Without a contract binding, \<open>queryAllowanceBySpender\<close> returns with no call
  made and nothing raised, and \<open>approve\<close> resolves with no call made and nothing
  thrown: its callback fails on \<open>contract!.connect(signer)\<close> at once, before
  \<open>executeWithGasLimit\<close> is called, and \<open>useContractCall\<close> reports that failure as
  the resolved outcome. The state, and with it the list of calls made, is untouched.
\<close>

theorem no_binding_resolves_without_call:
  assumes "contract e = None"
  shows "queryAllowanceBySpender e spender s = (Done, s) \<and>
         approve cv e spender amount s = (Raised TypeError, s) \<and>
         useContractCall (approve cv e spender amount) s = (Resolved (Some TypeError), s) \<and>
         calls (snd (queryAllowanceBySpender e spender s)) = calls s \<and>
         calls (snd (useContractCall (approve cv e spender amount) s)) = calls s"
  using assms by (simp add: queryAllowanceBySpender_def approve_def useContractCall_def)

theorem no_binding_resolves_without_call_witness:
  "contract disconnected = None \<and>
   queryAllowanceBySpender disconnected ''0xAAA'' init_state = (Done, init_state) \<and>
   useContractCall (approve floor disconnected ''0xAAA'' 1) init_state
     = (Resolved (Some TypeError), init_state) \<and>
   calls (snd (useContractCall (approve floor disconnected ''0xAAA'' 1) init_state)) = []"
proof -
  have h: "contract disconnected = None"
    by (simp add: contract_def disconnected_def)
  have i: "calls init_state = []"
    by (simp add: init_state_def)
  show ?thesis
    using no_binding_resolves_without_call [OF h, of "''0xAAA''" init_state floor 1] h i by simp
qed

section \<open>The unlimited approval\<close>

text \<open>
  C5. Whatever the spender and whatever the state (balance, total supply, allowances
  queried before), the only call \<open>approveInfinity\<close> submits is \<open>approve\<close> with the raw
  amount \<open>2^256 - 1\<close>, the largest unsigned 256-bit integer; without a binding it submits
  nothing.
\<close>

theorem approveInfinity_submits_max:
  "calls (snd (approveInfinity e spender s)) =
     calls s @ (case contract e of
                  None \<Rightarrow> []
                | Some c \<Rightarrow> [ExecuteWithGasLimit c (signer e) ''approve''
                               [AddressArg spender, AmountArg (2 ^ 256 - 1)] APPROVE '''']) \<and>
   MaxUint256 = 2 ^ 256 - 1 \<and>
   MaxUint256 = uint (- 1 :: 256 word) \<and>
   (\<forall>w :: 256 word. uint w \<le> MaxUint256)"
proof -
  have m: "MaxUint256 = 2 ^ 256 - 1"
    by (simp add: MaxUint256_def)
  have b: "uint w \<le> MaxUint256" for w :: "256 word"
    using uint_bounded [of w] by (simp add: MaxUint256_def)
  have u: "MaxUint256 = uint (- 1 :: 256 word)"
    by (simp add: MaxUint256_def unsigned_minus_1_eq_mask mask_eq_exp_minus_1)
  have c: "calls (snd (approveInfinity e spender s)) =
     calls s @ (case contract e of
                  None \<Rightarrow> []
                | Some c \<Rightarrow> [ExecuteWithGasLimit c (signer e) ''approve''
                               [AddressArg spender, AmountArg (2 ^ 256 - 1)] APPROVE ''''])"
    by (simp add: approveInfinity_def await_def m split: option.split)
  show ?thesis using b u c m by blast
qed

section \<open>Allowance queries merge\<close>

text \<open>
  C8. With a live binding and a connected account, \<open>queryAllowanceBySpender\<close> on one
  spender and then on another, distinct one leaves an allowance mapping that holds both
  spenders with the values read for them and every earlier entry unchanged: whether the
  second query starts after the first read resolved, or both reads are in flight together
  and resolve in either order. Addresses are non-empty strings.
\<close>

theorem two_queries_keep_both:
  assumes "contract e1 = Some c1" "account e1 = Some a1" "truthy a1"
      and "contract e2 = Some c2" "account e2 = Some a2" "truthy a2"
      and "truthy x" "truthy y" "x \<noteq> y"
  shows "allowance (settle (Suc (nextRequest s)) (Inr vy) (snd (queryAllowanceBySpender e2 y
           (settle (nextRequest s) (Inr vx) (snd (queryAllowanceBySpender e1 x s)))))) =
           (allowance s)(x \<mapsto> bigNum2Big vx (decimals e1), y \<mapsto> bigNum2Big vy (decimals e2)) \<and>
         allowance (settle (Suc (nextRequest s)) (Inr vy) (settle (nextRequest s) (Inr vx)
           (snd (queryAllowanceBySpender e2 y (snd (queryAllowanceBySpender e1 x s)))))) =
           (allowance s)(x \<mapsto> bigNum2Big vx (decimals e1), y \<mapsto> bigNum2Big vy (decimals e2)) \<and>
         allowance (settle (nextRequest s) (Inr vx) (settle (Suc (nextRequest s)) (Inr vy)
           (snd (queryAllowanceBySpender e2 y (snd (queryAllowanceBySpender e1 x s)))))) =
           (allowance s)(x \<mapsto> bigNum2Big vx (decimals e1), y \<mapsto> bigNum2Big vy (decimals e2))"
  using assms by (auto simp add: queryAllowanceBySpender_def await_def settle_def fun_upd_twist)

theorem two_queries_keep_both_witness:
  "contract connected = Some (1, ''0xA'') \<and> account connected = Some ''0xACC'' \<and>
   truthy ''0xACC'' \<and> truthy ''0xAAA'' \<and> truthy ''0xBBB'' \<and> ''0xAAA'' \<noteq> ''0xBBB'' \<and>
   allowance (settle (Suc 0) (Inr 9) (snd (queryAllowanceBySpender connected ''0xBBB''
     (settle 0 (Inr 5) (snd (queryAllowanceBySpender connected ''0xAAA'' init_state))))))
     = [''0xAAA'' \<mapsto> 5, ''0xBBB'' \<mapsto> 9] \<and>
   allowance (settle 0 (Inr 5) (settle (Suc 0) (Inr 9)
     (snd (queryAllowanceBySpender connected ''0xBBB''
       (snd (queryAllowanceBySpender connected ''0xAAA'' init_state))))))
     = [''0xAAA'' \<mapsto> 5, ''0xBBB'' \<mapsto> 9]"
proof -
  have h: "contract connected = Some (1, ''0xA'')" "account connected = Some ''0xACC''"
    "truthy ''0xACC''"
    by (simp_all add: contract_def connected_def truthy_def)
  have t: "truthy ''0xAAA''" "truthy ''0xBBB''" "''0xAAA'' \<noteq> ''0xBBB''"
    by (simp_all add: truthy_def)
  have d: "bigNum2Big 5 (decimals connected) = 5" "bigNum2Big 9 (decimals connected) = 9"
    by (simp_all add: bigNum2Big_def connected_def)
  have i: "nextRequest init_state = 0" "allowance init_state = Map.empty"
    by (simp_all add: init_state_def)
  show ?thesis
    using two_queries_keep_both [OF h h t, of init_state 9 5] h t d i by simp
qed

section \<open>The ref cell\<close>

lemma savedCallback_useContractEvent:
  "savedCallback (useContractEvent r s) = Some (snd (snd r))"
  by (cases r)
     (simp add: useContractEvent_def commit_def Let_def saveCallback_def subscribe_def on_def
        split: option.split)

lemma savedCallback_unmount: "savedCallback (unmount s) = savedCallback s"
  by (simp add: unmount_def runCleanup_def off_def split: option.split)

section \<open>The subscriber keeps one listener\<close>

lemma tracked_mount: "tracked mount" "settled mount"
  by (simp_all add: tracked_def settled_def mount_def)

lemma tracked_runCleanup:
  "tracked s \<Longrightarrow> tracked (runCleanup s) \<and> cleanup (runCleanup s) = None"
  by (auto simp add: tracked_def runCleanup_def off_def split: option.splits)

lemma tracked_saveCallback: "tracked s \<Longrightarrow> tracked (saveCallback cb s)"
  by (simp add: tracked_def saveCallback_def)

lemma tracked_subscribe:
  "tracked s \<Longrightarrow> cleanup s = None \<Longrightarrow> tracked (subscribe c n s) \<and> settled (subscribe c n s)"
  by (auto simp add: tracked_def settled_def subscribe_def on_def Let_def split: option.splits)

lemma saveCallback_fields:
  "cleanup (saveCallback cb s) = cleanup s"
  "lastDeps (saveCallback cb s) = lastDeps s"
  by (simp_all add: saveCallback_def)

lemma settled_saveCallback: "settled s \<Longrightarrow> settled (saveCallback cb s)"
  unfolding settled_def saveCallback_fields by simp

lemma lastDeps_subscribe: "lastDeps (subscribe c n s) = Some (c, n)"
  by (simp add: subscribe_def on_def Let_def split: option.split)

lemma tracked_commit:
  assumes "tracked s" "settled s"
  shows "\<forall>s' \<in> set (commit r s). tracked s'"
    and "settled (useContractEvent r s)"
    and "lastDeps (useContractEvent r s) = Some (fst r, fst (snd r))"
proof -
  obtain c n cb where r: "r = (c, n, cb)" by (cases r) auto
  let ?s1 = "runCleanup s"
  let ?s2 = "saveCallback cb ?s1"
  let ?s3 = "subscribe c n ?s2"
  have t1: "tracked ?s1" and c1: "cleanup ?s1 = None"
    using tracked_runCleanup [OF assms(1)] by simp_all
  have t2: "tracked ?s2" using t1 by (rule tracked_saveCallback)
  have c2: "cleanup ?s2 = None" using c1 by (simp add: saveCallback_fields)
  have t3: "tracked ?s3" and d3: "settled ?s3"
    using tracked_subscribe [OF t2 c2] by simp_all
  show "\<forall>s' \<in> set (commit r s). tracked s'"
  proof (cases "lastDeps s = Some (c, n)")
    case True
    then show ?thesis
      using assms(1) tracked_saveCallback [OF assms(1), of cb] by (simp add: r commit_def Let_def)
  next
    case False
    then show ?thesis using t1 t2 t3 by (simp add: r commit_def Let_def)
  qed
  show "settled (useContractEvent r s)"
  proof (cases "lastDeps s = Some (c, n)")
    case True
    then show ?thesis
      using settled_saveCallback [OF assms(2), of cb]
      by (simp add: r useContractEvent_def commit_def Let_def)
  next
    case False
    then show ?thesis using d3 by (simp add: r useContractEvent_def commit_def Let_def)
  qed
  show "lastDeps (useContractEvent r s) = Some (fst r, fst (snd r))"
    by (simp add: r useContractEvent_def commit_def Let_def saveCallback_fields
        lastDeps_subscribe)
qed

lemma tracked_useContractEvent:
  "tracked s \<Longrightarrow> settled s \<Longrightarrow> tracked (useContractEvent r s)"
  using tracked_commit(1) [of s r]
  by (simp add: useContractEvent_def commit_def Let_def split: prod.splits)

lemma tracked_renders:
  "tracked s \<Longrightarrow> settled s \<Longrightarrow> tracked (renders rs s) \<and> settled (renders rs s)"
  by (induction rs arbitrary: s) (auto simp add: tracked_useContractEvent tracked_commit(2))

lemma tracked_instants:
  "tracked s \<Longrightarrow> settled s \<Longrightarrow> s' \<in> set (instants rs s) \<Longrightarrow> tracked s'"
proof (induction rs arbitrary: s)
  case Nil
  then show ?case by simp
next
  case (Cons r rs)
  then show ?case
    using tracked_commit(1) [of s r] tracked_commit(2) [of s r] tracked_useContractEvent [of s r]
    by auto
qed

lemma tracked_le1: "tracked s \<Longrightarrow> length (listeners s) \<le> 1"
  by (auto simp add: tracked_def split: option.splits)

lemma listenersOn_le: "length (listenersOn b n s) \<le> length (listeners s)"
  by (simp add: listenersOn_def)

text \<open>
  C4. From the mount on, over any sequence of commits with any contracts, channels and
  handlers, and at every instant of every commit (after the cleanup, after the first
  effect, after the second), the subscriber has at most one listener installed, so at
  most one per contract and channel; once the owning component is unmounted it has none.
\<close>

theorem at_most_one_listener:
  "(\<forall>s \<in> set (instants rs mount).
       length (listeners s) \<le> 1 \<and> (\<forall>b n. length (listenersOn b n s) \<le> 1)) \<and>
   listeners (unmount (renders rs mount)) = []"
proof -
  have a: "length (listeners s) \<le> 1 \<and> (\<forall>b n. length (listenersOn b n s) \<le> 1)"
    if "s \<in> set (instants rs mount)" for s :: "'a subscriber"
  proof -
    have "tracked s" using tracked_instants [OF tracked_mount that] .
    then have "length (listeners s) \<le> 1" by (rule tracked_le1)
    then show ?thesis using listenersOn_le [of _ _ s] by (meson le_trans)
  qed
  have "tracked (renders rs (mount :: 'a subscriber))"
    using tracked_renders [OF tracked_mount] by blast
  then have b: "listeners (unmount (renders rs (mount :: 'a subscriber))) = []"
    using tracked_runCleanup [of "renders rs mount"]
    by (simp add: unmount_def tracked_def)
  show ?thesis using a b by blast
qed

theorem at_most_one_listener_witness:
  "renders [(Some (1, ''0xA''), ''Transfer'', 10 :: nat), (Some (1, ''0xB''), ''Transfer'', 20)]
     mount
     \<in> set (instants [(Some (1, ''0xA''), ''Transfer'', 10), (Some (1, ''0xB''), ''Transfer'', 20)]
          mount) \<and>
   listeners (renders
     [(Some (1, ''0xA''), ''Transfer'', 10 :: nat), (Some (1, ''0xB''), ''Transfer'', 20)] mount)
     = [((1, ''0xB''), ''Transfer'', 1)] \<and>
   length (listeners (renders
     [(Some (1, ''0xA''), ''Transfer'', 10 :: nat), (Some (1, ''0xB''), ''Transfer'', 20)] mount))
     \<le> 1 \<and>
   listeners (unmount (renders
     [(Some (1, ''0xA''), ''Transfer'', 10 :: nat), (Some (1, ''0xB''), ''Transfer'', 20)] mount))
     = []"
proof -
  let ?rs = "[(Some (1, ''0xA''), ''Transfer'', 10 :: nat), (Some (1, ''0xB''), ''Transfer'', 20)]"
  have m: "renders ?rs mount \<in> set (instants ?rs mount)"
    by (simp add: useContractEvent_def commit_def Let_def)
  have l: "listeners (renders ?rs mount) = [((1, ''0xB''), ''Transfer'', 1)]"
    by (simp add: useContractEvent_def commit_def Let_def mount_def runCleanup_def
        saveCallback_def subscribe_def on_def off_def truthy_def)
  show ?thesis
    using at_most_one_listener [of ?rs] m l by simp
qed

section \<open>The newest handler is the one called\<close>

lemma renders_append: "renders (xs @ ys) s = renders ys (renders xs s)"
  by (induction xs arbitrary: s) auto

lemma invoked_latest:
  assumes "tracked s" "settled s" "lastDeps s = Some (Some b, n)" "truthy n"
  shows "invoked b n s = (case savedCallback s of None \<Rightarrow> [] | Some h \<Rightarrow> [h])"
  using assms by (auto simp add: tracked_def settled_def invoked_def split: option.splits)

lemma renders_same_pair:
  assumes "tracked s" "settled s" "rs \<noteq> []" "\<forall>r \<in> set rs. fst r = Some b \<and> fst (snd r) = n"
  shows "lastDeps (renders rs s) = Some (Some b, n) \<and>
         savedCallback (renders rs s) = Some (snd (snd (last rs)))"
  using assms
proof (induction rs arbitrary: s)
  case Nil
  then show ?case by simp
next
  case (Cons r rs)
  have t: "tracked (useContractEvent r s)" "settled (useContractEvent r s)"
    using Cons.prems tracked_useContractEvent tracked_commit(2) by blast+
  show ?case
  proof (cases "rs = []")
    case True
    then show ?thesis
      using Cons.prems tracked_commit(3) [of s r] savedCallback_useContractEvent [of r s]
      by simp
  next
    case False
    then show ?thesis using Cons.IH [OF t False] Cons.prems by simp
  qed
qed

text \<open>
  C3. After any earlier commits, take one or more commits that all have the same contract
  and the same non-empty channel name, each with its own handler (a handler is supplied
  when the effects of its commit have run). An event the contract then emits on that
  channel calls exactly one handler, the one of the last commit, and none of the handlers
  supplied before.
\<close>

theorem newest_handler_only:
  assumes "rs \<noteq> []" "\<forall>r \<in> set rs. fst r = Some b \<and> fst (snd r) = n" "truthy n"
  shows "invoked b n (renders (pre @ rs) mount) = [snd (snd (last rs))]"
proof -
  let ?s = "renders pre (mount :: 'a subscriber)"
  have t: "tracked ?s" "settled ?s"
    using tracked_renders [OF tracked_mount] by blast+
  have l: "lastDeps (renders rs ?s) = Some (Some b, n) \<and>
           savedCallback (renders rs ?s) = Some (snd (snd (last rs)))"
    using renders_same_pair [OF t assms(1,2)] .
  have "tracked (renders rs ?s)" "settled (renders rs ?s)"
    using tracked_renders [OF t] by blast+
  then show ?thesis
    using invoked_latest [of "renders rs ?s" b n] l assms(3) by (simp add: renders_append)
qed

theorem newest_handler_only_witness:
  "[(Some (1, ''0xA''), ''Transfer'', 10 :: nat), (Some (1, ''0xA''), ''Transfer'', 20)] \<noteq> [] \<and>
   map (\<lambda>r. (fst r, fst (snd r)))
     [(Some (1, ''0xA''), ''Transfer'', 10 :: nat), (Some (1, ''0xA''), ''Transfer'', 20)]
     = [(Some (1, ''0xA''), ''Transfer''), (Some (1, ''0xA''), ''Transfer'')] \<and>
   truthy ''Transfer'' \<and>
   invoked (1, ''0xA'') ''Transfer''
     (renders ([(Some (1, ''0xB''), ''Transfer'', 5)] @
        [(Some (1, ''0xA''), ''Transfer'', 10 :: nat), (Some (1, ''0xA''), ''Transfer'', 20)]) mount)
     = [20]"
proof -
  let ?rs = "[(Some (1, ''0xA''), ''Transfer'', 10 :: nat), (Some (1, ''0xA''), ''Transfer'', 20)]"
  have h1: "?rs \<noteq> []" by simp
  have h2: "\<forall>r \<in> set ?rs. fst r = Some (1, ''0xA'') \<and> fst (snd r) = ''Transfer''" by simp
  have h3: "truthy ''Transfer''" by (simp add: truthy_def)
  show ?thesis
    using newest_handler_only [OF h1 h2 h3, of "[(Some (1, ''0xB''), ''Transfer'', 5)]"] h1 h2 h3
    by simp
qed

section \<open>Events delivered to the hook\<close>

lemma step_latest:
  assumes "savedCallback (transferSub h) = latest h" "savedCallback (approvalSub h) = latest h"
  shows "savedCallback (transferSub (step cv ev h)) = latest (step cv ev h) \<and>
         savedCallback (approvalSub (step cv ev h)) = latest (step cv ev h)"
  using assms
  by (cases ev)
     (simp_all add: commitToken_def Let_def savedCallback_useContractEvent savedCallback_unmount
        split: option.split)

lemma run_latest:
  assumes "savedCallback (transferSub h) = latest h" "savedCallback (approvalSub h) = latest h"
  shows "savedCallback (transferSub (run cv evs h)) = latest (run cv evs h) \<and>
         savedCallback (approvalSub (run cv evs h)) = latest (run cv evs h)"
  using assms
proof (induction evs arbitrary: h)
  case Nil
  then show ?case by simp
next
  case (Cons ev evs)
  then show ?case using step_latest [of h cv ev] by simp
qed

lemma invoked_saved: "h \<in> set (invoked b n s) \<Longrightarrow> savedCallback s = Some h"
  by (auto simp add: invoked_def split: if_splits option.splits)

lemma runHandlers_idle:
  assumes "\<And>e. e \<in> set es \<Longrightarrow> f e s = (Done, s)"
  shows "runHandlers f es s = s"
  using assms by (induction es) simp_all

text \<open>
  C7. On a \<open>Transfer\<close> event in which neither \<open>from\<close> nor \<open>to\<close> is the connected
  account, the handler issues no read and changes nothing: balance, total supply,
  allowances, reads in flight and calls made are all as before. The same holds for the
  hook as a whole, in any state it can reach, when the event is delivered through the
  subscriber.
\<close>

theorem transfer_of_others_ignored:
  assumes "Some from \<noteq> account e" "Some to \<noteq> account e"
  shows "transferHandler e from to s = (Done, s) \<and>
         (latest (run cv evs useToken_init) = Some e \<longrightarrow>
          step cv (Transfer b from to) (run cv evs useToken_init) = run cv evs useToken_init)"
proof -
  have a: "transferHandler e from to s = (Done, s)" for s
    using assms by (auto simp add: transferHandler_def split: option.splits)
  let ?h = "run cv evs useToken_init"
  have b: "step cv (Transfer b from to) ?h = ?h" if l: "latest ?h = Some e"
  proof -
    have "savedCallback (transferSub ?h) = latest ?h"
      using run_latest [of useToken_init cv evs] by (simp add: useToken_init_def mount_def)
    then have "\<And>e'. e' \<in> set (invoked b ''Transfer'' (transferSub ?h)) \<Longrightarrow> e' = e"
      using l invoked_saved by fastforce
    then have "runHandlers (\<lambda>e. transferHandler e from to)
                 (invoked b ''Transfer'' (transferSub ?h)) (token ?h) = token ?h"
      using a by (intro runHandlers_idle) simp
    then show ?thesis by simp
  qed
  show ?thesis using a b by blast
qed

theorem transfer_of_others_ignored_witness:
  "Some ''0xF'' \<noteq> account connected \<and> Some ''0xT'' \<noteq> account connected \<and>
   latest (run floor [Render connected] useToken_init) = Some connected \<and>
   invoked (1, ''0xA'') ''Transfer'' (transferSub (run floor [Render connected] useToken_init))
     = [connected] \<and>
   transferHandler connected ''0xF'' ''0xT'' init_state = (Done, init_state) \<and>
   step floor (Transfer (1, ''0xA'') ''0xF'' ''0xT'') (run floor [Render connected] useToken_init)
     = run floor [Render connected] useToken_init"
proof -
  have h: "Some ''0xF'' \<noteq> account connected" "Some ''0xT'' \<noteq> account connected"
    by (simp_all add: connected_def)
  have l: "latest (run floor [Render connected] useToken_init) = Some connected"
    by (simp add: commitToken_def Let_def)
  have i: "invoked (1, ''0xA'') ''Transfer''
             (transferSub (run floor [Render connected] useToken_init)) = [connected]"
    by (simp add: commitToken_def Let_def useToken_init_def mount_def useContractEvent_def
        commit_def runCleanup_def saveCallback_def subscribe_def on_def invoked_def truthy_def
        contract_def connected_def)
  show ?thesis
    using transfer_of_others_ignored [OF h, of init_state floor "[Render connected]" "(1, ''0xA'')"]
      h l i by blast
qed

lemma tracked_commit_only: "tracked s \<Longrightarrow> tracked (useContractEvent r s)"
proof -
  assume t: "tracked s"
  obtain c n cb where r: "r = (c, n, cb)" by (cases r) auto
  have t1: "tracked (runCleanup s)" and c1: "cleanup (runCleanup s) = None"
    using tracked_runCleanup [OF t] by simp_all
  have t2: "tracked (saveCallback cb (runCleanup s))" using t1 by (rule tracked_saveCallback)
  have c2: "cleanup (saveCallback cb (runCleanup s)) = None"
    using c1 by (simp add: saveCallback_fields)
  show ?thesis
    using tracked_subscribe [OF t2 c2, of c n] tracked_saveCallback [OF t, of cb]
    by (simp add: r useContractEvent_def commit_def Let_def)
qed

lemma cleanup_runCleanup: "cleanup (runCleanup s) = None"
  by (simp add: runCleanup_def off_def split: option.split)

lemma linked_subscribe: "cleanup s = None \<Longrightarrow> linked (subscribe c n s)"
  by (simp add: linked_def subscribe_def on_def Let_def split: option.split)

lemma linked_saveCallback: "linked s \<Longrightarrow> linked (saveCallback cb s)"
  unfolding linked_def saveCallback_fields by simp

lemma linked_useContractEvent: "linked s \<Longrightarrow> linked (useContractEvent r s)"
proof -
  assume l: "linked s"
  obtain c n cb where r: "r = (c, n, cb)" by (cases r) auto
  have "cleanup (saveCallback cb (runCleanup s)) = None"
    by (simp add: saveCallback_fields cleanup_runCleanup)
  then show ?thesis
    using linked_subscribe [of "saveCallback cb (runCleanup s)" c n] linked_saveCallback [OF l, of cb]
    by (simp add: r useContractEvent_def commit_def Let_def)
qed

lemma lastDeps_useContractEvent: "lastDeps (useContractEvent r s) = Some (fst r, fst (snd r))"
  by (cases r)
     (simp add: useContractEvent_def commit_def Let_def saveCallback_fields lastDeps_subscribe)

lemma unmount_fields:
  "lastDeps (unmount s) = lastDeps s" "cleanup (unmount s) = None"
  by (simp_all add: unmount_def runCleanup_def off_def split: option.split)

lemma tracked_unmount: "tracked s \<Longrightarrow> tracked (unmount s)"
  using tracked_runCleanup [of s] by (simp add: unmount_def)

lemma linked_unmount: "linked (unmount s)"
  by (simp add: linked_def unmount_fields)

lemma approval_ok_init: "approval_ok useToken_init"
  by (simp add: approval_ok_def useToken_init_def mount_def tracked_def linked_def)

lemma approval_ok_step: "approval_ok h \<Longrightarrow> approval_ok (step cv ev h)"
proof (cases ev)
  case (Render e)
  assume "approval_ok h"
  then show ?thesis
    by (simp add: Render approval_ok_def commitToken_def Let_def tracked_commit_only
        linked_useContractEvent savedCallback_useContractEvent lastDeps_useContractEvent)
next
  case Unmount
  assume "approval_ok h"
  then show ?thesis
    by (simp add: Unmount approval_ok_def savedCallback_unmount unmount_fields
        tracked_unmount linked_unmount split: option.splits)
qed (simp_all add: approval_ok_def split: option.splits)

lemma approval_ok_run: "approval_ok h \<Longrightarrow> approval_ok (run cv evs h)"
  by (induction evs arbitrary: h) (simp_all add: approval_ok_step)

lemma approval_delivered:
  assumes "approval_ok h" "latest h = Some e" "invoked b ''Approval'' (approvalSub h) \<noteq> []"
  shows "contract e = Some b \<and> invoked b ''Approval'' (approvalSub h) = [e]"
proof -
  let ?s = "approvalSub h"
  have t: "tracked ?s" and l: "linked ?s" and c: "savedCallback ?s = Some e"
    and d: "lastDeps ?s = Some (contract e, ''Approval'')"
    using assms(1,2) by (simp_all add: approval_ok_def)
  obtain r where r: "cleanup ?s = Some r" "listeners ?s = [r]"
    using t assms(3) by (cases "cleanup ?s") (auto simp add: tracked_def invoked_def)
  have m: "fst r = b \<and> fst (snd r) = ''Approval''"
    using assms(3) r(2) by (auto simp add: invoked_def split: if_splits)
  have "lastDeps ?s = Some (Some b, ''Approval'')"
    using l r(1) m by (simp add: linked_def)
  then have "contract e = Some b" using d by simp
  moreover have "invoked b ''Approval'' ?s = [e]"
    using r(2) m c by (simp add: invoked_def)
  ultimately show ?thesis by simp
qed

text \<open>
  C6. On an \<open>Approval\<close> event whose owner is the connected account, the handler issues
  one read of \<open>allowance(owner, spender)\<close>; when that read resolves with the raw value
  \<open>v\<close>, the allowance mapping is the old one with \<open>spender\<close> set to \<open>v / 10^decimals\<close>,
  every other entry as it was (also when the state changed while the read was in flight).
  In any state the hook can reach, an \<open>Approval\<close> event that the subscriber delivers
  finds the binding live and runs exactly this handler, with the values of the latest commit.
\<close>

theorem approval_updates_spender:
  assumes "account e = Some owner"
  shows "(contract e = Some c \<longrightarrow>
          fst (approvalHandler e owner spender s) = Awaiting (nextRequest s) \<and>
          calls (snd (approvalHandler e owner spender s)) =
            calls s @ [ContractAllowance c owner spender] \<and>
          pending (snd (approvalHandler e owner spender s)) (nextRequest s) =
            Some (SetAllowance spender (decimals e)) \<and>
          allowance (settle (nextRequest s) (Inr v) (snd (approvalHandler e owner spender s))) =
            (allowance s)(spender \<mapsto> bigNum2Big v (decimals e))) \<and>
         (\<forall>s' r d. pending s' r = Some (SetAllowance spender d) \<longrightarrow>
            allowance (settle r (Inr v) s') = (allowance s')(spender \<mapsto> bigNum2Big v d)) \<and>
         (latest (run cv evs useToken_init) = Some e \<and>
          invoked b ''Approval'' (approvalSub (run cv evs useToken_init)) \<noteq> [] \<longrightarrow>
            contract e = Some b \<and>
            token (step cv (Approval b owner spender) (run cv evs useToken_init)) =
              snd (approvalHandler e owner spender (token (run cv evs useToken_init))))"
proof -
  have a: "contract e = Some c \<longrightarrow>
          fst (approvalHandler e owner spender s) = Awaiting (nextRequest s) \<and>
          calls (snd (approvalHandler e owner spender s)) =
            calls s @ [ContractAllowance c owner spender] \<and>
          pending (snd (approvalHandler e owner spender s)) (nextRequest s) =
            Some (SetAllowance spender (decimals e)) \<and>
          allowance (settle (nextRequest s) (Inr v) (snd (approvalHandler e owner spender s))) =
            (allowance s)(spender \<mapsto> bigNum2Big v (decimals e))"
    using assms by (simp add: approvalHandler_def await_def settle_def)
  have b: "\<forall>s' r d. pending s' r = Some (SetAllowance spender d) \<longrightarrow>
            allowance (settle r (Inr v) s') = (allowance s')(spender \<mapsto> bigNum2Big v d)"
    by (simp add: settle_def)
  let ?h = "run cv evs useToken_init"
  have c: "contract e = Some b \<and>
            token (step cv (Approval b owner spender) ?h) =
              snd (approvalHandler e owner spender (token ?h))"
    if h: "latest ?h = Some e" "invoked b ''Approval'' (approvalSub ?h) \<noteq> []"
  proof -
    have "approval_ok ?h" using approval_ok_run [OF approval_ok_init] .
    then have "contract e = Some b \<and> invoked b ''Approval'' (approvalSub ?h) = [e]"
      using h by (rule approval_delivered)
    then show ?thesis by simp
  qed
  show ?thesis using a b c by blast
qed

theorem approval_updates_spender_witness:
  "account connected = Some ''0xACC'' \<and> contract connected = Some (1, ''0xA'') \<and>
   pending (snd (approvalHandler connected ''0xACC'' ''0xS'' init_state)) 0 =
     Some (SetAllowance ''0xS'' 0) \<and>
   allowance (settle 0 (Inr 5) (snd (approvalHandler connected ''0xACC'' ''0xS'' init_state))) =
     [''0xS'' \<mapsto> 5] \<and>
   latest (run floor [Render connected] useToken_init) = Some connected \<and>
   invoked (1, ''0xA'') ''Approval'' (approvalSub (run floor [Render connected] useToken_init))
     = [connected] \<and>
   allowance (settle 2 (Inr 5) (token (step floor (Approval (1, ''0xA'') ''0xACC'' ''0xS'')
     (run floor [Render connected] useToken_init)))) = [''0xS'' \<mapsto> 5]"
proof -
  let ?h = "run floor [Render connected] useToken_init"
  have h: "account connected = Some ''0xACC''"
    by (simp add: connected_def)
  have c: "contract connected = Some (1, ''0xA'')"
    by (simp add: contract_def connected_def)
  have d: "bigNum2Big 5 (decimals connected) = 5" "decimals connected = 0"
    by (simp_all add: bigNum2Big_def connected_def)
  have i: "nextRequest init_state = 0" "allowance init_state = Map.empty"
    by (simp_all add: init_state_def)
  have l: "latest ?h = Some connected"
    by (simp add: commitToken_def Let_def)
  have v: "invoked (1, ''0xA'') ''Approval'' (approvalSub ?h) = [connected]"
    by (simp add: commitToken_def Let_def useToken_init_def mount_def useContractEvent_def
        commit_def runCleanup_def saveCallback_def subscribe_def on_def invoked_def truthy_def
        contract_def connected_def)
  have n: "nextRequest (token ?h) = 2" "allowance (token ?h) = Map.empty"
    by (simp_all add: commitToken_def Let_def useToken_init_def init_state_def fetchToken_def
        fetchBalance_def await_def truthy_def connected_def)
  have t: "token (step floor (Approval (1, ''0xA'') ''0xACC'' ''0xS'') ?h) =
             snd (approvalHandler connected ''0xACC'' ''0xS'' (token ?h))"
    using approval_updates_spender [OF h, of _ _ _ _ floor "[Render connected]" "(1, ''0xA'')"] l v
    by simp
  have "allowance (settle (nextRequest (token ?h)) (Inr 5)
          (snd (approvalHandler connected ''0xACC'' ''0xS'' (token ?h)))) = [''0xS'' \<mapsto> 5]"
    using approval_updates_spender [OF h, of "(1, ''0xA'')" "''0xS''" "token ?h" 5] c d n by simp
  then have f: "allowance (settle 2 (Inr 5) (token (step floor
      (Approval (1, ''0xA'') ''0xACC'' ''0xS'') ?h))) = [''0xS'' \<mapsto> 5]"
    using t n by simp
  show ?thesis
    using approval_updates_spender [OF h, of "(1, ''0xA'')" "''0xS''" init_state 5] h c d i l v f
    by simp
qed


end
